theory Spec2Isabelle
  imports Main
begin

section \<open>The alert extraction job: treeherder/extract/extract_alerts.py\<close>

text \<open>
  \<^verbatim>\<open>ExtractAlerts.extract\<close> copies alert summaries from MySQL to BigQuery in chunks and
  keeps its position in Redis. The collaborators (Redis, MySQL, the snowflake extractor,
  the BigQuery table, the clock, the JSON codec) are libraries outside the repository:
  their answers are fields of the record \<open>env\<close>, their calls are recorded in a trace, and
  an exception of theirs is a value \<open>Inl\<close> of the result.
\<close>

subsection \<open>Source tables and documents\<close>

text \<open>A \<^verbatim>\<open>Date\<close> of mo\_times and a SQL datetime: a number of time units since the epoch.\<close>

type_synonym timestamp = int

text \<open>The columns of \<^verbatim>\<open>treeherder.performance_alert_summary\<close> that the query names.\<close>

record summary_row =
  s_id :: int
  s_created :: timestamp
  s_last_updated :: timestamp

text \<open>The columns of \<^verbatim>\<open>treeherder.performance_alert\<close> that the query names.\<close>

record alert_row =
  a_summary_id :: int
  a_last_updated :: timestamp

record database =
  performance_alert_summary :: "summary_row list"
  performance_alert :: "alert_row list"

text \<open>
  A document built by the extractor: the fields the loop reads (\<^verbatim>\<open>id\<close>, \<^verbatim>\<open>created\<close>)
  and the one it writes (\<^verbatim>\<open>etl.timestamp\<close>).
\<close>

record doc =
  doc_id :: int
  doc_created :: timestamp
  etl_timestamp :: "timestamp option"

subsection \<open>Configuration, collaborators, effects\<close>

text \<open>\<^verbatim>\<open>settings.extractor\<close>: \<^verbatim>\<open>app_name\<close>, \<^verbatim>\<open>key\<close>, \<^verbatim>\<open>sql\<close>, \<^verbatim>\<open>chunk_size\<close>.\<close>

record settings =
  extractor_app_name :: string
  extractor_key :: string
  extractor_sql :: string
  extractor_chunk_size :: nat

text \<open>
  What the libraries answer during one invocation. \<open>value2json\<close> and \<open>json2value\<close> are
  mo\_json's codec on a checkpoint pair (\<open>None\<close>: the text does not decode to a pair, the
  call or the unpacking raises); \<open>canonical_sql\<close> is \<^verbatim>\<open>extractor.get_sql(SQL("SELECT 0")).sql\<close>;
  \<open>YEAR\<close> and \<open>DAY\<close> are the durations of mo\_times; \<open>today e i\<close> and \<open>tables e i\<close> give
  \<^verbatim>\<open>Date.today()\<close> and the source snapshot of loop round \<open>i\<close>, and \<open>now e i k\<close> gives the
  \<^verbatim>\<open>Date.now()\<close> read for record \<open>k\<close> of the batch of round \<open>i\<close>; the \<open>raises\<close> fields say
  which calls raise. The Redis client is taken to answer every call.
\<close>

record env =
  value2json :: "timestamp \<times> int \<Rightarrow> string"
  json2value :: "string \<Rightarrow> (timestamp \<times> int) option"
  canonical_sql :: string
  YEAR :: int
  DAY :: int
  today :: "nat \<Rightarrow> timestamp"
  now :: "nat \<Rightarrow> nat \<Rightarrow> timestamp"
  tables :: "nat \<Rightarrow> database"
  setup_raises :: bool
  premerge_raises :: bool
  merge_raises :: bool
  query_raises :: "nat \<Rightarrow> bool"
  extend_raises :: "nat \<Rightarrow> bool"

text \<open>
  The calls the job makes, in the order it makes them. \<open>Query ly lm n\<close> is the id query
  issued with retention cutoff \<open>ly\<close>, checkpoint timestamp \<open>lm\<close> and limit \<open>n\<close>;
  \<open>Fetched acc\<close> is the batch \<^verbatim>\<open>construct_docs\<close> accumulated; \<open>Extend acc\<close> is
  \<^verbatim>\<open>destination.extend(acc)\<close>.
\<close>

datatype event =
    Merge_shards
  | Redis_get string
  | Redis_set string string
  | Query timestamp timestamp nat
  | Fetched "doc list"
  | Extend "doc list"
  | Log_note string
  | Log_warning string
  | Log_error string
  | Log_stop

datatype exn =
    Config_error
  | Setup_error
  | Merge_error
  | Json_error
  | Schema_changed
  | Query_error
  | Extend_error

record world =
  redis :: "string \<rightharpoonup> string"
  trace :: "event list"

definition emit :: "event \<Rightarrow> world \<Rightarrow> world" where
  "emit e w = w\<lparr>trace := trace w @ [e]\<rparr>"

definition redis_get :: "string \<Rightarrow> world \<Rightarrow> string option \<times> world" where
  "redis_get k w = (redis w k, emit (Redis_get k) w)"

definition redis_set :: "string \<Rightarrow> string \<Rightarrow> world \<Rightarrow> world" where
  "redis_set k v w = emit (Redis_set k v) (w\<lparr>redis := (redis w)(k \<mapsto> v)\<rparr>)"

text \<open>Python's truth value of \<^verbatim>\<open>redis.get(...)\<close>: \<^verbatim>\<open>None\<close> and \<^verbatim>\<open>b""\<close> are false.\<close>

definition truthy :: "string option \<Rightarrow> bool" where
  "truthy v = (case v of None \<Rightarrow> False | Some s \<Rightarrow> s \<noteq> [])"

subsection \<open>The id query and the documents\<close>

text \<open>
  \<^verbatim>\<open>FROM performance_alert_summary s LEFT JOIN performance_alert a ON s.id=a.summary_id\<close>:
  every summary with each of its alerts, or once with no alert.
\<close>

definition left_join :: "database \<Rightarrow> (summary_row \<times> alert_row option) list" where
  "left_join db =
     concat (map (\<lambda>s.
       case filter (\<lambda>a. a_summary_id a = s_id s) (performance_alert db) of
         [] \<Rightarrow> [(s, None)]
       | as \<Rightarrow> map (\<lambda>a. (s, Some a)) as) (performance_alert_summary db))"

text \<open>
  \<^verbatim>\<open>WHERE s.created > last_year AND (s.last_updated > last_modified OR a.last_updated > last_modified)\<close>;
  a comparison with the NULL of an unmatched alert is not true.
\<close>

definition where_clause :: "timestamp \<Rightarrow> timestamp \<Rightarrow> summary_row \<times> alert_row option \<Rightarrow> bool" where
  "where_clause last_year last_modified sa =
     (last_year < s_created (fst sa) \<and>
      (last_modified < s_last_updated (fst sa) \<or>
       (case snd sa of None \<Rightarrow> False | Some a \<Rightarrow> last_modified < a_last_updated a)))"

text \<open>\<^verbatim>\<open>SELECT s.id ... GROUP BY s.id ORDER BY s.id LIMIT chunk_size\<close>.\<close>

definition get_ids :: "database \<Rightarrow> timestamp \<Rightarrow> timestamp \<Rightarrow> nat \<Rightarrow> int list" where
  "get_ids db last_year last_modified chunk_size =
     take chunk_size (sort (remdups (map (\<lambda>sa. s_id (fst sa))
       (filter (where_clause last_year last_modified) (left_join db)))))"

text \<open>
  Modelled from the spec: the extractor collaborator (\<^verbatim>\<open>MySqlSnowflakeExtractor.get_sql\<close>
  and \<^verbatim>\<open>construct_docs\<close> of jx\_mysql, not under src/) folds the joined rows of each
  selected parent identifier into one document, in the order of the identifiers; the
  document carries the parent's \<^verbatim>\<open>id\<close> and \<^verbatim>\<open>created\<close>.
\<close>

definition construct_docs :: "database \<Rightarrow> int list \<Rightarrow> doc list" where
  "construct_docs db ids =
     List.map_filter (\<lambda>i.
       map_option (\<lambda>s. \<lparr>doc_id = s_id s, doc_created = s_created s, etl_timestamp = None\<rparr>)
         (find (\<lambda>s. s_id s = i) (performance_alert_summary db))) ids"

text \<open>\<^verbatim>\<open>last_year = Date.today() - YEAR + DAY\<close>, in round \<open>i\<close>.\<close>

definition last_year :: "env \<Rightarrow> nat \<Rightarrow> timestamp" where
  "last_year e i = today e i - YEAR e + DAY e"

text \<open>
  \<^verbatim>\<open>PULL FROM source\<close>: the batch \<^verbatim>\<open>acc\<close> of round \<open>i\<close> when the query does not raise.
\<close>

definition pull :: "settings \<Rightarrow> env \<Rightarrow> nat \<Rightarrow> timestamp \<Rightarrow> doc list" where
  "pull cfg e i last_modified =
     construct_docs (tables e i)
       (get_ids (tables e i) (last_year e i) last_modified (extractor_chunk_size cfg))"

subsection \<open>The invocation\<close>

text \<open>The template of the note that opens every round of the loop; the log calls of the
  model carry their template, not the values formatted into it.\<close>

definition extracting_alerts :: string where
  "extracting_alerts =
     ''Extracting alerts for last_modified={{last_modified|datetime|quote}}, alert.id={{alert_id}}''"

text \<open>
  \<^verbatim>\<open>for r in acc: r.etl.timestamp = Date.now()\<close>: record \<open>k\<close> of the batch gets the clock
  reading \<open>t k\<close>.
\<close>

fun stamp :: "(nat \<Rightarrow> timestamp) \<Rightarrow> nat \<Rightarrow> doc list \<Rightarrow> doc list" where
  "stamp t k [] = []"
| "stamp t k (r # rs) = r\<lparr>etl_timestamp := Some (t k)\<rparr> # stamp t (Suc k) rs"

text \<open>
  How one pass through the body of \<^verbatim>\<open>while True\<close> ends: by an exception, by \<^verbatim>\<open>break\<close>, or
  at the end of the body with the new \<^verbatim>\<open>(last_modified, alert_id)\<close>.
\<close>

datatype control = Raised exn | Break | Continue "timestamp \<times> int"

text \<open>
  The body of the \<^verbatim>\<open>while True\<close> loop, lines 75 to 119, in round \<open>i\<close> with the state
  \<open>st = (last_modified, alert_id)\<close>. The read transaction and the timers of the source
  have no counterpart here.
\<close>

definition iteration :: "settings \<Rightarrow> env \<Rightarrow> nat \<Rightarrow> timestamp \<times> int \<Rightarrow> world
    \<Rightarrow> control \<times> world" where
  "iteration cfg e i st w =
     (let last_modified = fst st;
          w1 = emit (Log_note extracting_alerts) w;
          w2 = emit (Query (last_year e i) last_modified (extractor_chunk_size cfg)) w1
      in if query_raises e i then (Raised Query_error, w2)
         else
           let acc = pull cfg e i last_modified;
               w3 = emit (Fetched acc) w2
           in if acc = [] then (Break, w3)
              else
                let acc' = stamp (now e i) 0 acc;
                    w4 = emit (Extend acc') w3
                in if extend_raises e i then (Raised Extend_error, w4)
                   else
                     let last_doc = last acc';
                         st' = (doc_created last_doc, doc_id last_doc);
                         w5 = redis_set (extractor_key cfg) (value2json e st') w4
                     in if length acc' < extractor_chunk_size cfg then (Break, w5)
                        else (Continue st', w5))"

text \<open>
  The \<^verbatim>\<open>while True\<close> loop. It need not end, so it runs on fuel: \<open>None\<close> says the loop has
  not left after \<open>fuel\<close> rounds. \<open>i\<close> counts the rounds.
\<close>

fun loop :: "nat \<Rightarrow> settings \<Rightarrow> env \<Rightarrow> nat \<Rightarrow> timestamp \<times> int \<Rightarrow> world
    \<Rightarrow> ((exn + unit) \<times> world) option" where
  "loop 0 cfg e i st w = None"
| "loop (Suc fuel) cfg e i st w =
     (case iteration cfg e i st w of
        (Raised x, w') \<Rightarrow> Some (Inl x, w')
      | (Break, w') \<Rightarrow> Some (Inr (), w')
      | (Continue st', w') \<Rightarrow> loop fuel cfg e (Suc i) st' w')"

text \<open>
  The world the loop has reached after at most \<open>fuel\<close> rounds: the one it left with, or the
  one in which round \<open>fuel\<close> would start. It tells what a loop that never ends has done.
\<close>

fun loop_world :: "nat \<Rightarrow> settings \<Rightarrow> env \<Rightarrow> nat \<Rightarrow> timestamp \<times> int \<Rightarrow> world \<Rightarrow> world" where
  "loop_world 0 cfg e i st w = w"
| "loop_world (Suc fuel) cfg e i st w =
     (case iteration cfg e i st w of
        (Continue st', w') \<Rightarrow> loop_world fuel cfg e (Suc i) st' w'
      | (c, w') \<Rightarrow> w')"

text \<open>\<^verbatim>\<open>if merge: destination.merge_shards()\<close>, the first statement of the \<^verbatim>\<open>try\<close>.\<close>

definition premerge :: "env \<Rightarrow> bool \<Rightarrow> world \<Rightarrow> (exn + unit) \<times> world" where
  "premerge e merge w =
     (if merge then
        (if premerge_raises e then (Inl Merge_error, emit Merge_shards w)
         else (Inr (), emit Merge_shards w))
      else (Inr (), w))"

text \<open>\<^verbatim>\<open>RECOVER LAST SQL STATE\<close>: the checkpoint \<^verbatim>\<open>(last_modified, alert_id)\<close>.\<close>

definition recover_state :: "settings \<Rightarrow> env \<Rightarrow> bool \<Rightarrow> world
    \<Rightarrow> (exn + timestamp \<times> int) \<times> world" where
  "recover_state cfg e restart w =
     (let (state, w1) = redis_get (extractor_key cfg) w
      in if restart \<or> \<not> truthy state
         then (Inr (0, 0), redis_set (extractor_key cfg) (value2json e (0, 0)) w1)
         else (case state of
                 None \<Rightarrow> (Inl Json_error, w1)
               | Some s \<Rightarrow>
                   (case json2value e s of
                      None \<Rightarrow> (Inl Json_error, w1)
                    | Some st \<Rightarrow> (Inr st, w1))))"

text \<open>
  \<^verbatim>\<open>ENSURE SCHEMA HAS NOT CHANGED SINCE LAST RUN\<close>. \<^verbatim>\<open>Log.error\<close> raises; \<^verbatim>\<open>Log.warning\<close>
  returns.
\<close>

definition check_schema :: "settings \<Rightarrow> env \<Rightarrow> bool \<Rightarrow> world \<Rightarrow> (exn + unit) \<times> world" where
  "check_schema cfg e force w =
     (let (old_sql, w1) = redis_get (extractor_sql cfg) w
      in if truthy old_sql \<and> old_sql \<noteq> Some (canonical_sql e)
         then (if force
               then (Inr (), redis_set (extractor_sql cfg) (canonical_sql e)
                               (emit (Log_warning ''Schema has changed'') w1))
               else (Inl Schema_changed, emit (Log_error ''Schema has changed'') w1))
         else (Inr (), redis_set (extractor_sql cfg) (canonical_sql e) w1))"

text \<open>The statements of the first \<^verbatim>\<open>try\<close> that come before the loop, lines 41 to 72.\<close>

definition before_loop :: "settings \<Rightarrow> env \<Rightarrow> bool \<Rightarrow> bool \<Rightarrow> bool \<Rightarrow> world
    \<Rightarrow> (exn + timestamp \<times> int) \<times> world" where
  "before_loop cfg e force restart merge w =
     (case premerge e merge w of
        (Inl x, w1) \<Rightarrow> (Inl x, w1)
      | (Inr _, w1) \<Rightarrow>
          (case recover_state cfg e restart w1 of
             (Inl x, w2) \<Rightarrow> (Inl x, w2)
           | (Inr st, w2) \<Rightarrow>
               (case check_schema cfg e force w2 of
                  (Inl x, w3) \<Rightarrow> (Inl x, w3)
                | (Inr _, w3) \<Rightarrow> (Inr st, w3))))"

text \<open>The body of the first \<^verbatim>\<open>try\<close>: an \<open>Inl\<close> is the exception its \<^verbatim>\<open>except\<close> catches.\<close>

definition try_extraction :: "nat \<Rightarrow> settings \<Rightarrow> env \<Rightarrow> bool \<Rightarrow> bool \<Rightarrow> bool \<Rightarrow> world
    \<Rightarrow> ((exn + unit) \<times> world) option" where
  "try_extraction fuel cfg e force restart merge w =
     (case before_loop cfg e force restart merge w of
        (Inl x, w3) \<Rightarrow> Some (Inl x, w3)
      | (Inr st, w3) \<Rightarrow> loop fuel cfg e 0 st w3)"

text \<open>
  What follows the first \<^verbatim>\<open>try\<close>: the warning of its \<^verbatim>\<open>except\<close>, the guarded merge, the
  closing notes.
\<close>

definition finish :: "env \<Rightarrow> (exn + unit) \<Rightarrow> world \<Rightarrow> world" where
  "finish e r w =
     (let w1 = (case r of Inl x \<Rightarrow> emit (Log_warning ''problem with extraction'') w | Inr _ \<Rightarrow> w);
          w2 = emit (Log_note ''done alert extraction'') w1;
          w3 = emit Merge_shards w2;
          w4 = (if merge_raises e then emit (Log_warning ''problem with merge'') w3 else w3);
          w5 = emit (Log_note ''done alert merge'') w4
      in emit Log_stop w5)"

text \<open>
  \<^verbatim>\<open>ExtractAlerts.extract(settings, force, restart, merge)\<close>, named \<open>extract_alerts\<close> here
  since Isabelle reserves the word. \<open>Inl\<close> is an exception that
  leaves \<^verbatim>\<open>extract\<close>: the missing \<^verbatim>\<open>app_name\<close> or a failed destination setup, both
  outside the \<^verbatim>\<open>try\<close>.
\<close>

definition extract_alerts :: "nat \<Rightarrow> settings \<Rightarrow> env \<Rightarrow> bool \<Rightarrow> bool \<Rightarrow> bool \<Rightarrow> world
    \<Rightarrow> ((exn + unit) \<times> world) option" where
  "extract_alerts fuel cfg e force restart merge w =
     (if extractor_app_name cfg = []
      then Some (Inl Config_error,
                 emit (Log_error ''Expecting an extractor.app_name in config file'') w)
      else if setup_raises e then Some (Inl Setup_error, w)
      else (case try_extraction fuel cfg e force restart merge w of
              None \<Rightarrow> None
            | Some (r, w1) \<Rightarrow> Some (Inr (), finish e r w1)))"

text \<open>
  The world an invocation has reached when \<^verbatim>\<open>extract\<close> has returned or raised, or, while
  the loop has not left after \<open>fuel\<close> rounds, the world those rounds have made.
\<close>

definition extract_world :: "nat \<Rightarrow> settings \<Rightarrow> env \<Rightarrow> bool \<Rightarrow> bool \<Rightarrow> bool \<Rightarrow> world
    \<Rightarrow> world" where
  "extract_world fuel cfg e force restart merge w =
     (if extractor_app_name cfg = []
      then emit (Log_error ''Expecting an extractor.app_name in config file'') w
      else if setup_raises e then w
      else (case before_loop cfg e force restart merge w of
              (Inl x, w3) \<Rightarrow> finish e (Inl x) w3
            | (Inr st, w3) \<Rightarrow>
                (case loop fuel cfg e 0 st w3 of
                   Some (r, w1) \<Rightarrow> finish e r w1
                 | None \<Rightarrow> loop_world fuel cfg e 0 st w3)))"

subsection \<open>Observations on a run\<close>

text \<open>The values written under key \<open>k\<close>, the batches handed to the destination, the
  sizes of the fetched batches and the queries, in the order of the calls.\<close>

fun writes_to :: "string \<Rightarrow> event list \<Rightarrow> string list" where
  "writes_to k [] = []"
| "writes_to k (Redis_set k' v # es) = (if k' = k then v # writes_to k es else writes_to k es)"
| "writes_to k (ev # es) = writes_to k es"

fun deliveries :: "event list \<Rightarrow> doc list list" where
  "deliveries [] = []"
| "deliveries (Extend acc # es) = acc # deliveries es"
| "deliveries (ev # es) = deliveries es"

fun fetch_sizes :: "event list \<Rightarrow> nat list" where
  "fetch_sizes [] = []"
| "fetch_sizes (Fetched acc # es) = length acc # fetch_sizes es"
| "fetch_sizes (ev # es) = fetch_sizes es"

fun queries :: "event list \<Rightarrow> event list" where
  "queries [] = []"
| "queries (Query ly lm n # es) = Query ly lm n # queries es"
| "queries (ev # es) = queries es"

text \<open>
  \<open>commits_follow k enc p2 p1 es\<close>: every write under key \<open>k\<close> in \<open>es\<close> comes directly after
  the \<open>Extend\<close> of a batch, which comes directly after the \<open>Fetched\<close> of a batch that is not
  empty and holds the same records but for the clock readings; the write is \<open>enc\<close> of the
  \<open>(created, id)\<close> of the last record delivered. \<open>p2\<close> and \<open>p1\<close> are the two calls before
  \<open>es\<close>, if any.
\<close>

fun commits_follow :: "string \<Rightarrow> (timestamp \<times> int \<Rightarrow> string) \<Rightarrow> event option \<Rightarrow> event option
    \<Rightarrow> event list \<Rightarrow> bool" where
  "commits_follow k enc p2 p1 [] = True"
| "commits_follow k enc p2 p1 (ev # es) =
     ((case ev of
         Redis_set k' v \<Rightarrow>
           (if k' = k
            then (case p2 of
                    Some (Fetched acc) \<Rightarrow>
                      (case p1 of
                         Some (Extend acc') \<Rightarrow>
                           acc \<noteq> [] \<and> map doc_id acc' = map doc_id acc
                           \<and> map doc_created acc' = map doc_created acc
                           \<and> v = enc (doc_created (last acc'), doc_id (last acc'))
                       | _ \<Rightarrow> False)
                  | _ \<Rightarrow> False)
            else True)
       | _ \<Rightarrow> True)
      \<and> commits_follow k enc p1 (Some ev) es)"


text \<open>The calls a round of the loop can make.\<close>

fun loop_event :: "string \<Rightarrow> event \<Rightarrow> bool" where
  "loop_event k (Log_note s) = (s = extracting_alerts)"
| "loop_event k (Query ly lm n) = True"
| "loop_event k (Fetched acc) = True"
| "loop_event k (Extend acc) = True"
| "loop_event k (Redis_set k' v) = (k' = k)"
| "loop_event k ev = False"

text \<open>The trace and the store a run ends with (\<open>[]\<close> and the empty store when the
  fuel ran out).\<close>

definition trace_of :: "((exn + unit) \<times> world) option \<Rightarrow> event list" where
  "trace_of r = (case r of None \<Rightarrow> [] | Some (x, w) \<Rightarrow> trace w)"

definition redis_of :: "((exn + unit) \<times> world) option \<Rightarrow> string \<rightharpoonup> string" where
  "redis_of r = (case r of None \<Rightarrow> Map.empty | Some (x, w) \<Rightarrow> redis w)"

definition world_of :: "((exn + unit) \<times> world) option \<Rightarrow> world" where
  "world_of r = (case r of None \<Rightarrow> \<lparr>redis = Map.empty, trace = []\<rparr> | Some (x, w) \<Rightarrow> w)"

subsection \<open>Worked inputs\<close>

text \<open>A JSON codec for a pair of integers, \<^verbatim>\<open>[a, b]\<close> in decimal, to run the job on
  concrete stores.\<close>

fun show_nat :: "nat \<Rightarrow> string" where
  "show_nat n =
     (if n < 10 then [''0123456789'' ! n]
      else show_nat (n div 10) @ [''0123456789'' ! (n mod 10)])"

definition show_int :: "int \<Rightarrow> string" where
  "show_int i = (if i < 0 then CHR ''-'' # show_nat (nat (- i)) else show_nat (nat i))"

definition json_of_pair :: "int \<times> int \<Rightarrow> string" where
  "json_of_pair p = ''['' @ show_int (fst p) @ '', '' @ show_int (snd p) @ '']''"

definition digit_of :: "char \<Rightarrow> nat option" where
  "digit_of c = map_option fst (find (\<lambda>p. snd p = c) (zip [0..<10] ''0123456789''))"

fun read_nat :: "nat \<Rightarrow> string \<Rightarrow> nat option" where
  "read_nat n [] = Some n"
| "read_nat n (c # cs) =
     (case digit_of c of None \<Rightarrow> None | Some d \<Rightarrow> read_nat (10 * n + d) cs)"

definition read_int :: "string \<Rightarrow> int option" where
  "read_int s =
     (case s of
        [] \<Rightarrow> None
      | c # cs \<Rightarrow>
          if c = CHR ''-'' then (if cs = [] then None else map_option (\<lambda>n. - int n) (read_nat 0 cs))
          else map_option int (read_nat 0 s))"

definition pair_of_json :: "string \<Rightarrow> (int \<times> int) option" where
  "pair_of_json s =
     (case s of
        [] \<Rightarrow> None
      | c # r \<Rightarrow>
          if c \<noteq> CHR ''['' \<or> r = [] \<or> last r \<noteq> CHR '']'' then None
          else
            (let body = butlast r;
                 a = takeWhile (\<lambda>x. x \<noteq> CHR '','') body;
                 b = dropWhile (\<lambda>x. x = CHR '' '') (drop 1 (dropWhile (\<lambda>x. x \<noteq> CHR '','') body))
             in case (read_int a, read_int b) of
                  (Some x, Some y) \<Rightarrow> Some (x, y)
                | _ \<Rightarrow> None))"

text \<open>Settings with a page of two; the time unit of the worked inputs is the day, and
  today is day 400, so that the retention cutoff is day 36.\<close>

definition cfg2 :: settings where
  "cfg2 = \<lparr>extractor_app_name = ''alerts'', extractor_key = ''alerts.state'',
           extractor_sql = ''alerts.sql'', extractor_chunk_size = 2\<rparr>"

text \<open>Collaborators that never raise, over an unchanging source \<open>db\<close>.\<close>

definition calm :: "database \<Rightarrow> env" where
  "calm db =
     \<lparr>value2json = json_of_pair, json2value = pair_of_json, canonical_sql = ''SELECT 0'',
      YEAR = 365, DAY = 1, today = (\<lambda>i. 400), now = (\<lambda>i k. 400), tables = (\<lambda>i. db),
      setup_raises = False, premerge_raises = False, merge_raises = False,
      query_raises = (\<lambda>i. False), extend_raises = (\<lambda>i. False)\<rparr>"

definition summary :: "int \<Rightarrow> timestamp \<Rightarrow> timestamp \<Rightarrow> summary_row" where
  "summary i c u = \<lparr>s_id = i, s_created = c, s_last_updated = u\<rparr>"

text \<open>One summary, created on day 100 and updated on day 300; no alerts.\<close>

definition db_one :: database where
  "db_one = \<lparr>performance_alert_summary = [summary 1 100 300], performance_alert = []\<rparr>"

text \<open>Two summaries, the older one updated on day 300.\<close>

definition db_two :: database where
  "db_two = \<lparr>performance_alert_summary = [summary 1 100 300, summary 2 200 200],
             performance_alert = []\<rparr>"

text \<open>Four summaries created on days 110 to 140, the first one updated on day 150.\<close>

definition db_four :: database where
  "db_four = \<lparr>performance_alert_summary =
                 [summary 1 110 150, summary 2 120 120, summary 3 130 130, summary 4 140 140],
              performance_alert = []\<rparr>"

text \<open>Four summaries that were never updated after they were created.\<close>

definition db_clean :: database where
  "db_clean = \<lparr>performance_alert_summary =
                 [summary 1 110 110, summary 2 120 120, summary 3 130 130, summary 4 140 140],
               performance_alert = []\<rparr>"

text \<open>An empty source.\<close>

definition db_none :: database where
  "db_none = \<lparr>performance_alert_summary = [], performance_alert = []\<rparr>"

text \<open>A store that holds nothing, and one left by an earlier run.\<close>

definition fresh :: world where
  "fresh = \<lparr>redis = Map.empty, trace = []\<rparr>"

definition stored :: world where
  "stored = \<lparr>redis = [''alerts.state'' \<mapsto> ''[100, 1]'', ''alerts.sql'' \<mapsto> ''SELECT 1''],
             trace = []\<rparr>"

text \<open>A store left by a run that ended on day 300, with the current fingerprint.\<close>

definition resumed :: world where
  "resumed = \<lparr>redis = [''alerts.state'' \<mapsto> ''[300, 1]'', ''alerts.sql'' \<mapsto> ''SELECT 0''],
              trace = []\<rparr>"



section \<open>Properties\<close>

lemma emit_redis: "redis (emit ev w) = redis w"
  by (simp add: emit_def)

subsection \<open>The loop\<close>

lemma writes_to_append: "writes_to k (xs @ ys) = writes_to k xs @ writes_to k ys"
  by (induction k xs rule: writes_to.induct) auto

lemma deliveries_append: "deliveries (xs @ ys) = deliveries xs @ deliveries ys"
  by (induction xs rule: deliveries.induct) auto

lemma fetch_sizes_append: "fetch_sizes (xs @ ys) = fetch_sizes xs @ fetch_sizes ys"
  by (induction xs rule: fetch_sizes.induct) auto

lemma queries_append: "queries (xs @ ys) = queries xs @ queries ys"
  by (induction xs rule: queries.induct) auto

lemma length_stamp [simp]: "length (stamp t k rs) = length rs"
  by (induction rs arbitrary: k) auto

lemma stamp_Nil_iff [simp]: "stamp t k rs = [] \<longleftrightarrow> rs = []"
  by (cases rs) auto

lemma stamp_ids:
  "map doc_id (stamp t k rs) = map doc_id rs \<and> map doc_created (stamp t k rs) = map doc_created rs"
  by (induction rs arbitrary: k) auto

lemma stamp_last:
  "rs \<noteq> [] \<Longrightarrow>
   doc_created (last (stamp t k rs)) = doc_created (last rs)
   \<and> doc_id (last (stamp t k rs)) = doc_id (last rs)"
  by (induction rs arbitrary: k) auto

text \<open>One round, case by case, with the calls it adds to the trace.\<close>

lemma iteration_eq:
  "iteration cfg e i st w =
     (if query_raises e i
      then (Raised Query_error,
            w\<lparr>trace := trace w @ [Log_note extracting_alerts,
               Query (last_year e i) (fst st) (extractor_chunk_size cfg)]\<rparr>)
      else if pull cfg e i (fst st) = []
      then (Break,
            w\<lparr>trace := trace w @ [Log_note extracting_alerts,
               Query (last_year e i) (fst st) (extractor_chunk_size cfg), Fetched []]\<rparr>)
      else if extend_raises e i
      then (Raised Extend_error,
            w\<lparr>trace := trace w @ [Log_note extracting_alerts,
               Query (last_year e i) (fst st) (extractor_chunk_size cfg),
               Fetched (pull cfg e i (fst st)),
               Extend (stamp (now e i) 0 (pull cfg e i (fst st)))]\<rparr>)
      else (if length (pull cfg e i (fst st)) < extractor_chunk_size cfg then Break
            else Continue (doc_created (last (pull cfg e i (fst st))),
                           doc_id (last (pull cfg e i (fst st)))),
            w\<lparr>redis := (redis w)(extractor_key cfg \<mapsto> value2json e
                  (doc_created (last (pull cfg e i (fst st))),
                   doc_id (last (pull cfg e i (fst st))))),
              trace := trace w @ [Log_note extracting_alerts,
               Query (last_year e i) (fst st) (extractor_chunk_size cfg),
               Fetched (pull cfg e i (fst st)),
               Extend (stamp (now e i) 0 (pull cfg e i (fst st))),
               Redis_set (extractor_key cfg) (value2json e
                  (doc_created (last (pull cfg e i (fst st))),
                   doc_id (last (pull cfg e i (fst st)))))]\<rparr>))"
  by (simp add: iteration_def Let_def emit_def redis_set_def stamp_last)

text \<open>What one round adds to the trace and to the store.\<close>

lemma iteration_inv:
  "\<exists>evs. trace (snd (iteration cfg e i st w)) = trace w @ Log_note extracting_alerts
            # Query (last_year e i) (fst st) (extractor_chunk_size cfg) # evs
     \<and> (\<forall>ev \<in> set evs. loop_event (extractor_key cfg) ev)
     \<and> (\<forall>p2 p1. commits_follow (extractor_key cfg) (value2json e) p2 p1
           (Log_note extracting_alerts
            # Query (last_year e i) (fst st) (extractor_chunk_size cfg) # evs))
     \<and> (\<forall>k. k \<noteq> extractor_key cfg \<longrightarrow> redis (snd (iteration cfg e i st w)) k = redis w k)
     \<and> redis (snd (iteration cfg e i st w)) (extractor_key cfg) =
         (if writes_to (extractor_key cfg) evs = [] then redis w (extractor_key cfg)
          else Some (last (writes_to (extractor_key cfg) evs)))"
  by (simp add: iteration_eq stamp_last stamp_ids)

lemma loop_Some_world:
  "loop fuel cfg e i st w = Some (r, w') \<Longrightarrow> w' = loop_world fuel cfg e i st w"
proof (induction fuel arbitrary: i st w)
  case 0
  then show ?case by simp
next
  case (Suc fuel)
  obtain c w1 where it: "iteration cfg e i st w = (c, w1)"
    by (cases "iteration cfg e i st w")
  show ?case
  proof (cases c)
    case (Continue st')
    with Suc.prems it have "loop fuel cfg e (Suc i) st' w1 = Some (r, w')"
      by simp
    from Suc.IH[OF this] Continue it show ?thesis
      by simp
  next
    case (Raised x)
    with Suc.prems it show ?thesis by simp
  next
    case Break
    with Suc.prems it show ?thesis by simp
  qed
qed

text \<open>What the rounds of the loop, as many as were made, add to the trace and to the store.\<close>

lemma loop_world_inv:
  "\<exists>evs. trace (loop_world fuel cfg e i st w) = trace w @ evs
     \<and> (\<forall>ev \<in> set evs. loop_event (extractor_key cfg) ev)
     \<and> (\<forall>p2 p1. commits_follow (extractor_key cfg) (value2json e) p2 p1 evs)
     \<and> (\<forall>k. k \<noteq> extractor_key cfg \<longrightarrow> redis (loop_world fuel cfg e i st w) k = redis w k)
     \<and> redis (loop_world fuel cfg e i st w) (extractor_key cfg) =
         (if writes_to (extractor_key cfg) evs = [] then redis w (extractor_key cfg)
          else Some (last (writes_to (extractor_key cfg) evs)))"
proof (induction fuel arbitrary: i st w)
  case 0
  show ?case by simp
next
  case (Suc fuel)
  let ?k = "extractor_key cfg"
  let ?head = "[Log_note extracting_alerts, Query (last_year e i) (fst st) (extractor_chunk_size cfg)]"
  obtain c w1 where it: "iteration cfg e i st w = (c, w1)"
    by (cases "iteration cfg e i st w")
  from iteration_inv[of cfg e i st w] it obtain evs1 where r1:
    "trace w1 = trace w @ ?head @ evs1"
    "\<forall>ev \<in> set evs1. loop_event ?k ev"
    "\<forall>p2 p1. commits_follow ?k (value2json e) p2 p1 (?head @ evs1)"
    "\<forall>k. k \<noteq> ?k \<longrightarrow> redis w1 k = redis w k"
    "redis w1 ?k = (if writes_to ?k evs1 = [] then redis w ?k else Some (last (writes_to ?k evs1)))"
    by auto
  show ?case
  proof (cases c)
    case (Continue st')
    from Suc.IH[of "Suc i" st' w1] obtain evs2 where r2:
      "trace (loop_world fuel cfg e (Suc i) st' w1) = trace w1 @ evs2"
      "\<forall>ev \<in> set evs2. loop_event ?k ev"
      "\<forall>p2 p1. commits_follow ?k (value2json e) p2 p1 evs2"
      "\<forall>k. k \<noteq> ?k \<longrightarrow> redis (loop_world fuel cfg e (Suc i) st' w1) k = redis w1 k"
      "redis (loop_world fuel cfg e (Suc i) st' w1) ?k =
         (if writes_to ?k evs2 = [] then redis w1 ?k else Some (last (writes_to ?k evs2)))"
      by blast
    have cf: "commits_follow ?k (value2json e) p2 p1 (xs @ evs2)"
      if "commits_follow ?k (value2json e) p2 p1 xs" for p2 p1 xs
      using that r2(3) by (induction xs arbitrary: p2 p1) auto
    have w: "loop_world (Suc fuel) cfg e i st w = loop_world fuel cfg e (Suc i) st' w1"
      using it Continue by simp
    have t: "trace (loop_world fuel cfg e (Suc i) st' w1) = trace w @ (?head @ evs1 @ evs2)"
      using r1(1) r2(1) by simp
    have le: "\<forall>ev \<in> set (?head @ evs1 @ evs2). loop_event ?k ev"
      using r1(2) r2(2) by auto
    have c: "\<forall>p2 p1. commits_follow ?k (value2json e) p2 p1 (?head @ evs1 @ evs2)"
      using cf[of _ _ "?head @ evs1"] r1(3) by simp
    have o: "\<forall>k. k \<noteq> ?k \<longrightarrow> redis (loop_world fuel cfg e (Suc i) st' w1) k = redis w k"
      using r1(4) r2(4) by simp
    have s: "redis (loop_world fuel cfg e (Suc i) st' w1) ?k =
         (if writes_to ?k (?head @ evs1 @ evs2) = [] then redis w ?k
          else Some (last (writes_to ?k (?head @ evs1 @ evs2))))"
      using r1(5) r2(5) by (simp add: writes_to_append)
    show ?thesis
      unfolding w using t le c o s by blast
  next
    case (Raised x)
    then have w: "loop_world (Suc fuel) cfg e i st w = w1"
      using it by simp
    show ?thesis
      unfolding w using r1 by (intro exI[of _ "?head @ evs1"]) simp
  next
    case Break
    then have w: "loop_world (Suc fuel) cfg e i st w = w1"
      using it by simp
    show ?thesis
      unfolding w using r1 by (intro exI[of _ "?head @ evs1"]) simp
  qed
qed


text \<open>The loop, once entered, has issued its first query.\<close>

lemma loop_world_head:
  "\<exists>post. trace (loop_world (Suc fuel) cfg e i st w) = trace w @ Log_note extracting_alerts
            # Query (last_year e i) (fst st) (extractor_chunk_size cfg) # post
          \<and> (\<forall>ev \<in> set post. loop_event (extractor_key cfg) ev)"
proof -
  let ?k = "extractor_key cfg"
  obtain c w1 where it: "iteration cfg e i st w = (c, w1)"
    by (cases "iteration cfg e i st w")
  from iteration_inv[of cfg e i st w] it obtain evs1 where r1:
    "trace w1 = trace w @ Log_note extracting_alerts
            # Query (last_year e i) (fst st) (extractor_chunk_size cfg) # evs1"
    "\<forall>ev \<in> set evs1. loop_event ?k ev"
    by auto
  show ?thesis
  proof (cases c)
    case (Continue st')
    from loop_world_inv[of fuel cfg e "Suc i" st' w1] obtain evs2 where
      "trace (loop_world fuel cfg e (Suc i) st' w1) = trace w1 @ evs2"
      "\<forall>ev \<in> set evs2. loop_event ?k ev"
      by blast
    with r1 it Continue show ?thesis
      by (intro exI[of _ "evs1 @ evs2"]) auto
  next
    case (Raised x)
    with r1 it show ?thesis by (intro exI[of _ evs1]) auto
  next
    case Break
    with r1 it show ?thesis by (intro exI[of _ evs1]) auto
  qed
qed

lemma loop_Some_Suc: "loop fuel cfg e i st w = Some (r, w') \<Longrightarrow> \<exists>n. fuel = Suc n"
  by (cases fuel) auto

lemma loop_head:
  assumes "loop fuel cfg e i st w = Some (r, w')"
  shows "\<exists>post. trace w' = trace w @ Log_note extracting_alerts
            # Query (last_year e i) (fst st) (extractor_chunk_size cfg) # post
          \<and> (\<forall>ev \<in> set post. loop_event (extractor_key cfg) ev)"
proof -
  from loop_Some_Suc[OF assms] obtain n where n: "fuel = Suc n" ..
  from loop_Some_world[OF assms] n have "w' = loop_world (Suc n) cfg e i st w"
    by simp
  with loop_world_head[of n cfg e i st w] show ?thesis
    by simp
qed

text \<open>
  The equations below run the loop on a concrete input: they decide whether the round
  goes on before they unfold the next one.
\<close>

lemma loop_Suc_code [code]:
  "loop (Suc fuel) cfg e i st w =
     (let cw = iteration cfg e i st w
      in if (case fst cw of Continue st' \<Rightarrow> True | _ \<Rightarrow> False)
         then loop fuel cfg e (Suc i) (case fst cw of Continue st' \<Rightarrow> st' | _ \<Rightarrow> st) (snd cw)
         else Some (case fst cw of Raised x \<Rightarrow> Inl x | _ \<Rightarrow> Inr (), snd cw))"
  by (simp add: Let_def split: prod.splits control.splits)

lemma loop_world_Suc_code [code]:
  "loop_world (Suc fuel) cfg e i st w =
     (let cw = iteration cfg e i st w
      in if (case fst cw of Continue st' \<Rightarrow> True | _ \<Rightarrow> False)
         then loop_world fuel cfg e (Suc i) (case fst cw of Continue st' \<Rightarrow> st' | _ \<Rightarrow> st) (snd cw)
         else snd cw)"
  by (simp add: Let_def split: prod.splits control.splits)

lemma try_extraction_code [code]:
  "try_extraction fuel cfg e force restart merge w =
     (let bw = before_loop cfg e force restart merge w
      in if isl (fst bw) then Some (Inl (projl (fst bw)), snd bw)
         else loop fuel cfg e 0 (projr (fst bw)) (snd bw))"
  by (simp add: try_extraction_def Let_def split: prod.splits sum.splits)

lemma extract_world_code [code]:
  "extract_world fuel cfg e force restart merge w =
     (if extractor_app_name cfg = []
      then emit (Log_error ''Expecting an extractor.app_name in config file'') w
      else if setup_raises e then w
      else (let bw = before_loop cfg e force restart merge w
            in if isl (fst bw) then finish e (Inl (projl (fst bw))) (snd bw)
               else (let r = loop fuel cfg e 0 (projr (fst bw)) (snd bw)
                     in if Option.is_none r
                        then loop_world fuel cfg e 0 (projr (fst bw)) (snd bw)
                        else finish e (fst (the r)) (snd (the r)))))"
  by (simp add: extract_world_def Let_def Option.is_none_def split: prod.splits sum.splits option.splits)

subsection \<open>The steps before and after the loop\<close>

lemma premerge_eq:
  "premerge e merge w =
     (if merge \<and> premerge_raises e then Inl Merge_error else Inr (),
      w\<lparr>trace := trace w @ (if merge then [Merge_shards] else [])\<rparr>)"
  by (simp add: premerge_def emit_def)

lemma recover_state_fst:
  "redis w1 = redis w \<Longrightarrow> fst (recover_state cfg e restart w1) = fst (recover_state cfg e restart w)"
  by (simp add: recover_state_def redis_get_def Let_def split: option.splits)

lemma recover_state_snd:
  "snd (recover_state cfg e restart w) =
     (if restart \<or> \<not> truthy (redis w (extractor_key cfg))
      then w\<lparr>redis := (redis w)(extractor_key cfg \<mapsto> value2json e (0, 0)),
             trace := trace w @ [Redis_get (extractor_key cfg),
                                 Redis_set (extractor_key cfg) (value2json e (0, 0))]\<rparr>
      else w\<lparr>trace := trace w @ [Redis_get (extractor_key cfg)]\<rparr>)"
  by (simp add: recover_state_def redis_get_def redis_set_def emit_def Let_def split: option.splits)


lemma check_schema_eq:
  "check_schema cfg e force w =
     (if truthy (redis w (extractor_sql cfg)) \<and> redis w (extractor_sql cfg) \<noteq> Some (canonical_sql e)
      then (if force
            then (Inr (), w\<lparr>redis := (redis w)(extractor_sql cfg \<mapsto> canonical_sql e),
                           trace := trace w @ [Redis_get (extractor_sql cfg),
                              Log_warning ''Schema has changed'',
                              Redis_set (extractor_sql cfg) (canonical_sql e)]\<rparr>)
            else (Inl Schema_changed, w\<lparr>trace := trace w @ [Redis_get (extractor_sql cfg),
                              Log_error ''Schema has changed'']\<rparr>))
      else (Inr (), w\<lparr>redis := (redis w)(extractor_sql cfg \<mapsto> canonical_sql e),
                     trace := trace w @ [Redis_get (extractor_sql cfg),
                              Redis_set (extractor_sql cfg) (canonical_sql e)]\<rparr>))"
  by (simp add: check_schema_def redis_get_def redis_set_def emit_def Let_def)

lemma finish_trace:
  "trace (finish e r w) =
     trace w @ (case r of Inl x \<Rightarrow> [Log_warning ''problem with extraction''] | Inr u \<Rightarrow> [])
       @ [Log_note ''done alert extraction'', Merge_shards]
       @ (if merge_raises e then [Log_warning ''problem with merge''] else [])
       @ [Log_note ''done alert merge'', Log_stop]"
  by (simp add: finish_def emit_def Let_def split: sum.splits)

lemma finish_redis: "redis (finish e r w) = redis w"
  by (simp add: finish_def emit_def Let_def split: sum.splits)


text \<open>The world in which the schema is checked, when the loading of the state succeeds.\<close>

lemma try_extraction_unfold:
  assumes "\<not> (merge \<and> premerge_raises e)"
      and "fst (recover_state cfg e restart w) = Inr st"
  shows "try_extraction fuel cfg e force restart merge w =
     (case check_schema cfg e force
             (snd (recover_state cfg e restart
                (w\<lparr>trace := trace w @ (if merge then [Merge_shards] else [])\<rparr>))) of
        (Inl x, w3) \<Rightarrow> Some (Inl x, w3)
      | (Inr u, w3) \<Rightarrow> loop fuel cfg e 0 st w3)"
proof -
  let ?w1 = "w\<lparr>trace := trace w @ (if merge then [Merge_shards] else [])\<rparr>"
  have pm: "premerge e merge w = (Inr (), ?w1)"
    using assms(1) by (simp add: premerge_eq)
  have f: "fst (recover_state cfg e restart ?w1) = Inr st"
    using assms(2) recover_state_fst[of ?w1 w cfg e restart] by simp
  show ?thesis
  proof (cases "recover_state cfg e restart ?w1")
    case (Pair a b)
    with f have "a = Inr st" by simp
    with Pair show ?thesis
      unfolding try_extraction_def before_loop_def pm
      by (simp split: prod.splits sum.splits)
  qed
qed





lemma pull_merge_raises [simp]: "pull cfg (e\<lparr>merge_raises := b\<rparr>) i lm = pull cfg e i lm"
  by (simp add: pull_def last_year_def)








subsection \<open>The store and the trace\<close>










subsection \<open>The id query\<close>

lemma in_join_row:
  "(s', ao) \<in> set (case filter P as of [] \<Rightarrow> [(s, None)] | bs \<Rightarrow> map (\<lambda>a. (s, Some a)) bs)
     \<longleftrightarrow> s' = s \<and> (case ao of None \<Rightarrow> \<not> (\<exists>a \<in> set as. P a) | Some a \<Rightarrow> a \<in> set as \<and> P a)"
proof (cases "filter P as")
  case Nil
  then have "\<not> (\<exists>a \<in> set as. P a)"
    by (simp add: filter_empty_conv)
  with Nil show ?thesis
    by (cases ao) auto
next
  case (Cons b bs)
  then have m: "set (b # bs) = {a \<in> set as. P a}"
    by (metis set_filter)
  then have "\<exists>a \<in> set as. P a"
    by auto
  moreover have "(s', ao) \<in> set (map (\<lambda>a. (s, Some a)) (b # bs))
      \<longleftrightarrow> s' = s \<and> (case ao of None \<Rightarrow> False | Some a \<Rightarrow> a \<in> set as \<and> P a)"
    unfolding m set_map by (cases ao) auto
  ultimately show ?thesis
    using Cons by (cases ao) simp_all
qed

lemma in_left_join:
  "(s, ao) \<in> set (left_join db) \<longleftrightarrow>
     s \<in> set (performance_alert_summary db)
     \<and> (case ao of
          None \<Rightarrow> \<not> (\<exists>a \<in> set (performance_alert db). a_summary_id a = s_id s)
        | Some a \<Rightarrow> a \<in> set (performance_alert db) \<and> a_summary_id a = s_id s)"
proof -
  have "(s, ao) \<in> set (left_join db) \<longleftrightarrow>
      (\<exists>s0 \<in> set (performance_alert_summary db).
         (s, ao) \<in> set (case filter (\<lambda>a. a_summary_id a = s_id s0) (performance_alert db) of
                          [] \<Rightarrow> [(s0, None)] | bs \<Rightarrow> map (\<lambda>a. (s0, Some a)) bs))"
    unfolding left_join_def by simp
  also have "\<dots> \<longleftrightarrow> (\<exists>s0 \<in> set (performance_alert_summary db).
       s = s0 \<and> (case ao of
          None \<Rightarrow> \<not> (\<exists>a \<in> set (performance_alert db). a_summary_id a = s_id s0)
        | Some a \<Rightarrow> a \<in> set (performance_alert db) \<and> a_summary_id a = s_id s0))"
    unfolding in_join_row ..
  also have "\<dots> \<longleftrightarrow> s \<in> set (performance_alert_summary db)
     \<and> (case ao of
          None \<Rightarrow> \<not> (\<exists>a \<in> set (performance_alert db). a_summary_id a = s_id s)
        | Some a \<Rightarrow> a \<in> set (performance_alert db) \<and> a_summary_id a = s_id s)"
    by blast
  finally show ?thesis .
qed


lemma selected_ids:
  "(\<lambda>sa. s_id (fst sa)) ` {sa \<in> set (left_join db). where_clause ly lm sa} =
     {s_id s | s. s \<in> set (performance_alert_summary db) \<and> ly < s_created s
        \<and> (lm < s_last_updated s
            \<or> (\<exists>a \<in> set (performance_alert db). a_summary_id a = s_id s \<and> lm < a_last_updated a))}"
  (is "?L = ?R")
proof (intro set_eqI iffI)
  fix x
  assume "x \<in> ?L"
  then obtain sa where sa: "sa \<in> set (left_join db)" "where_clause ly lm sa" "x = s_id (fst sa)"
    by blast
  obtain s ao where p: "sa = (s, ao)"
    by (cases sa)
  from sa(1) p have j: "s \<in> set (performance_alert_summary db)"
      "case ao of
         None \<Rightarrow> \<not> (\<exists>a \<in> set (performance_alert db). a_summary_id a = s_id s)
       | Some a \<Rightarrow> a \<in> set (performance_alert db) \<and> a_summary_id a = s_id s"
    by (simp_all add: in_left_join)
  from sa(2) p have w: "ly < s_created s"
      "lm < s_last_updated s \<or> (case ao of None \<Rightarrow> False | Some a \<Rightarrow> lm < a_last_updated a)"
    by (simp_all add: where_clause_def)
  have "lm < s_last_updated s
      \<or> (\<exists>a \<in> set (performance_alert db). a_summary_id a = s_id s \<and> lm < a_last_updated a)"
  proof (cases ao)
    case None
    with w(2) show ?thesis by simp
  next
    case (Some a)
    with w(2) j(2) show ?thesis by auto
  qed
  with j(1) w(1) sa(3) p show "x \<in> ?R"
    by auto
next
  fix x
  assume "x \<in> ?R"
  then obtain s where s: "s \<in> set (performance_alert_summary db)" "ly < s_created s" "x = s_id s"
    and u: "lm < s_last_updated s
      \<or> (\<exists>a \<in> set (performance_alert db). a_summary_id a = s_id s \<and> lm < a_last_updated a)"
    by blast
  have "\<exists>ao. (s, ao) \<in> set (left_join db) \<and> where_clause ly lm (s, ao)"
  proof (cases "\<exists>a \<in> set (performance_alert db). a_summary_id a = s_id s \<and> lm < a_last_updated a")
    case True
    then obtain a where "a \<in> set (performance_alert db)" "a_summary_id a = s_id s"
        "lm < a_last_updated a"
      by blast
    with s have "(s, Some a) \<in> set (left_join db) \<and> where_clause ly lm (s, Some a)"
      by (simp add: in_left_join where_clause_def)
    then show ?thesis ..
  next
    case False
    with u have lu: "lm < s_last_updated s" by blast
    show ?thesis
    proof (cases "\<exists>a \<in> set (performance_alert db). a_summary_id a = s_id s")
      case True
      then obtain a where "a \<in> set (performance_alert db)" "a_summary_id a = s_id s"
        by blast
      with s lu have "(s, Some a) \<in> set (left_join db) \<and> where_clause ly lm (s, Some a)"
        by (simp add: in_left_join where_clause_def)
      then show ?thesis ..
    next
      case False
      with s lu have "(s, None) \<in> set (left_join db) \<and> where_clause ly lm (s, None)"
        by (simp add: in_left_join where_clause_def)
      then show ?thesis ..
    qed
  qed
  then obtain ao where "(s, ao) \<in> set (left_join db)" "where_clause ly lm (s, ao)"
    by blast
  then have "(s, ao) \<in> {sa \<in> set (left_join db). where_clause ly lm sa}"
    by simp
  then have "s_id (fst (s, ao)) \<in> ?L"
    by (rule imageI)
  with s(3) show "x \<in> ?L"
    by simp
qed

lemma get_ids_sorted_list:
  "get_ids db ly lm n =
     take n (sorted_list_of_set
       {s_id s | s. s \<in> set (performance_alert_summary db) \<and> ly < s_created s
          \<and> (lm < s_last_updated s
              \<or> (\<exists>a \<in> set (performance_alert db). a_summary_id a = s_id s \<and> lm < a_last_updated a))})"
proof -
  let ?L = "map (\<lambda>sa. s_id (fst sa)) (filter (where_clause ly lm) (left_join db))"
  have "set ?L = (\<lambda>sa. s_id (fst sa)) ` {sa \<in> set (left_join db). where_clause ly lm sa}"
    by simp
  then have "sorted_list_of_set ((\<lambda>sa. s_id (fst sa)) ` {sa \<in> set (left_join db). where_clause ly lm sa})
      = sort (remdups ?L)"
    using sorted_list_of_set_sort_remdups[of ?L] by (rule subst)
  then show ?thesis
    unfolding get_ids_def selected_ids by (rule arg_cong[OF sym])
qed

lemma get_ids_subset:
  "set (get_ids db ly lm n) \<subseteq> s_id ` set (performance_alert_summary db)"
proof -
  have "set (get_ids db ly lm n)
      \<subseteq> (\<lambda>sa. s_id (fst sa)) ` {sa \<in> set (left_join db). where_clause ly lm sa}"
    unfolding get_ids_def by (auto dest!: in_set_takeD)
  also have "\<dots> \<subseteq> s_id ` set (performance_alert_summary db)"
    unfolding selected_ids by auto
  finally show ?thesis .
qed

lemma construct_docs_ids:
  "set ids \<subseteq> s_id ` set (performance_alert_summary db) \<Longrightarrow>
   map doc_id (construct_docs db ids) = ids"
proof (induction ids)
  case Nil
  then show ?case by (simp add: construct_docs_def)
next
  case (Cons i ids)
  then obtain s where s: "s \<in> set (performance_alert_summary db)" "s_id s = i"
    by auto
  then obtain s' where f: "find (\<lambda>s. s_id s = i) (performance_alert_summary db) = Some s'"
    by (cases "find (\<lambda>s. s_id s = i) (performance_alert_summary db)") (auto simp: find_None_iff)
  then have "s_id s' = i"
    by (auto simp: find_Some_iff)
  with Cons f show ?case
    by (simp add: construct_docs_def)
qed

subsection \<open>One round of the loop\<close>

lemma loop_empty_round:
  assumes "\<not> query_raises e i" "pull cfg e i (fst st) = []"
  shows "loop (Suc fuel) cfg e i st w =
     Some (Inr (), w\<lparr>trace := trace w @ [Log_note extracting_alerts,
        Query (last_year e i) (fst st) (extractor_chunk_size cfg), Fetched []]\<rparr>)"
  using assms by (simp add: iteration_eq)

lemma loop_short_round:
  assumes "\<not> query_raises e i" "\<not> extend_raises e i" "pull cfg e i (fst st) \<noteq> []"
      and "length (pull cfg e i (fst st)) < extractor_chunk_size cfg"
  shows "loop (Suc fuel) cfg e i st w =
     Some (Inr (),
       w\<lparr>redis := (redis w)(extractor_key cfg \<mapsto> value2json e
             (doc_created (last (pull cfg e i (fst st))), doc_id (last (pull cfg e i (fst st))))),
         trace := trace w @ [Log_note extracting_alerts,
           Query (last_year e i) (fst st) (extractor_chunk_size cfg),
           Fetched (pull cfg e i (fst st)),
           Extend (stamp (now e i) 0 (pull cfg e i (fst st))),
           Redis_set (extractor_key cfg) (value2json e
             (doc_created (last (pull cfg e i (fst st))),
              doc_id (last (pull cfg e i (fst st)))))]\<rparr>)"
  using assms by (simp add: iteration_eq)

lemma loop_full_round:
  assumes "\<not> query_raises e i" "\<not> extend_raises e i" "pull cfg e i (fst st) \<noteq> []"
      and "\<not> length (pull cfg e i (fst st)) < extractor_chunk_size cfg"
  shows "loop (Suc fuel) cfg e i st w =
     loop fuel cfg e (Suc i)
       (doc_created (last (pull cfg e i (fst st))), doc_id (last (pull cfg e i (fst st))))
       (w\<lparr>redis := (redis w)(extractor_key cfg \<mapsto> value2json e
             (doc_created (last (pull cfg e i (fst st))), doc_id (last (pull cfg e i (fst st))))),
         trace := trace w @ [Log_note extracting_alerts,
           Query (last_year e i) (fst st) (extractor_chunk_size cfg),
           Fetched (pull cfg e i (fst st)),
           Extend (stamp (now e i) 0 (pull cfg e i (fst st))),
           Redis_set (extractor_key cfg) (value2json e
             (doc_created (last (pull cfg e i (fst st))),
              doc_id (last (pull cfg e i (fst st)))))]\<rparr>)"
  using assms by (simp add: iteration_eq)

section \<open>The claims\<close>





text \<open>
  C2, as the code has it. The claim says that a schema drift without \<^verbatim>\<open>force\<close> leaves the
  checkpoint unchanged for every value of the other flags. The drift is checked after
  the state is recovered, so with \<^verbatim>\<open>restart\<close> (or with no stored checkpoint) the zero
  checkpoint has been written before \<^verbatim>\<open>Log.error\<close> raises: in the run below the store held
  \<^verbatim>\<open>[100, 1]\<close> and holds \<^verbatim>\<open>[0, 0]\<close> afterwards.
\<close>

theorem restart_resets_before_drift_check:
  "truthy (redis stored (extractor_sql cfg2))
   \<and> redis stored (extractor_sql cfg2) \<noteq> Some (canonical_sql (calm db_one))
   \<and> redis stored (extractor_key cfg2) = Some ''[100, 1]''
   \<and> trace_of (extract_alerts 5 cfg2 (calm db_one) False True False stored)
       = [Redis_get ''alerts.state'', Redis_set ''alerts.state'' ''[0, 0]'',
          Redis_get ''alerts.sql'', Log_error ''Schema has changed'',
          Log_warning ''problem with extraction'', Log_note ''done alert extraction'',
          Merge_shards, Log_note ''done alert merge'', Log_stop]
   \<and> redis_of (extract_alerts 5 cfg2 (calm db_one) False True False stored) (extractor_key cfg2)
       = Some ''[0, 0]''"
  by code_simp

text \<open>
  C2, amended. When a fingerprint is stored that differs from the current canonical
  query text, \<^verbatim>\<open>force\<close> is false and the invocation reaches the check (the job is
  configured, the destination setup and the optional first merge do not raise, the state
  is recovered), the run returns for every fuel, its trace is the one below, with no query,
  no fetched batch and no delivery, and the store is unchanged when \<^verbatim>\<open>restart\<close> is false and
  a checkpoint is stored; otherwise its only change is the zero checkpoint written before
  the check.
\<close>

theorem drift_abort_reads_nothing:
  assumes "truthy (redis w (extractor_sql cfg))"
      and "redis w (extractor_sql cfg) \<noteq> Some (canonical_sql e)"
      and "\<not> force"
      and "extractor_key cfg \<noteq> extractor_sql cfg"
      and "extractor_app_name cfg \<noteq> []" "\<not> setup_raises e" "\<not> (merge \<and> premerge_raises e)"
      and "fst (recover_state cfg e restart w) = Inr st"
  shows "\<exists>w'. extract_alerts fuel cfg e force restart merge w = Some (Inr (), w')
          \<and> trace w' = trace w @ (if merge then [Merge_shards] else [])
              @ [Redis_get (extractor_key cfg)]
              @ (if restart \<or> \<not> truthy (redis w (extractor_key cfg))
                 then [Redis_set (extractor_key cfg) (value2json e (0, 0))] else [])
              @ [Redis_get (extractor_sql cfg), Log_error ''Schema has changed'',
                 Log_warning ''problem with extraction'',
                 Log_note ''done alert extraction'', Merge_shards]
              @ (if merge_raises e then [Log_warning ''problem with merge''] else [])
              @ [Log_note ''done alert merge'', Log_stop]
          \<and> redis w' = (if restart \<or> \<not> truthy (redis w (extractor_key cfg))
                        then (redis w)(extractor_key cfg \<mapsto> value2json e (0, 0))
                        else redis w)"
  using assms
  by (simp add: extract_alerts_def try_extraction_unfold[OF assms(7) assms(8)]
      recover_state_snd check_schema_eq finish_trace finish_redis)

theorem drift_abort_reads_nothing_witness:
  "trace_of (extract_alerts 0 cfg2 (calm db_one) False False False stored)
     = [Redis_get ''alerts.state'', Redis_get ''alerts.sql'', Log_error ''Schema has changed'',
        Log_warning ''problem with extraction'', Log_note ''done alert extraction'',
        Merge_shards, Log_note ''done alert merge'', Log_stop]
   \<and> redis_of (extract_alerts 0 cfg2 (calm db_one) False False False stored) ''alerts.state''
     = Some ''[100, 1]''"
proof -
  have h: "truthy (redis stored (extractor_sql cfg2))"
       "redis stored (extractor_sql cfg2) \<noteq> Some (canonical_sql (calm db_one))"
       "\<not> False"
       "extractor_key cfg2 \<noteq> extractor_sql cfg2"
       "extractor_app_name cfg2 \<noteq> []" "\<not> setup_raises (calm db_one)"
       "\<not> (False \<and> premerge_raises (calm db_one))"
    by (simp_all add: cfg2_def calm_def stored_def truthy_def)
  have rs: "fst (recover_state cfg2 (calm db_one) False stored) = Inr (100, 1)"
    by code_simp
  from drift_abort_reads_nothing[OF h rs, of 0] obtain w' where
    "extract_alerts 0 cfg2 (calm db_one) False False False stored = Some (Inr (), w')"
    "trace w' = trace stored @ [Redis_get (extractor_key cfg2)]
        @ (if False \<or> \<not> truthy (redis stored (extractor_key cfg2))
           then [Redis_set (extractor_key cfg2) (value2json (calm db_one) (0, 0))] else [])
        @ [Redis_get (extractor_sql cfg2), Log_error ''Schema has changed'',
           Log_warning ''problem with extraction'',
           Log_note ''done alert extraction'', Merge_shards]
        @ (if merge_raises (calm db_one) then [Log_warning ''problem with merge''] else [])
        @ [Log_note ''done alert merge'', Log_stop]"
    "redis w' = (if False \<or> \<not> truthy (redis stored (extractor_key cfg2))
                 then (redis stored)(extractor_key cfg2 \<mapsto> value2json (calm db_one) (0, 0))
                 else redis stored)"
    by auto
  then show ?thesis
    by (simp add: trace_of_def redis_of_def cfg2_def calm_def stored_def truthy_def)
qed







text \<open>
  C10. A round that fetches an empty batch returns at once: it adds the note, the query
  and the empty batch to the trace, calls neither \<^verbatim>\<open>destination.extend\<close> nor \<^verbatim>\<open>redis.set\<close>,
  and leaves the store as it was. So an invocation whose first query finds no rows makes
  no delivery, and the checkpoint key holds what was loaded, or the zero checkpoint when
  the recovery of the state reset it.
\<close>

theorem empty_batch_ends_run:
  "(\<not> query_raises e i \<and> pull cfg e i (fst st) = [] \<longrightarrow>
      (\<exists>w'. loop (Suc fuel) cfg e i st w = Some (Inr (), w')
         \<and> redis w' = redis w
         \<and> trace w' = trace w @ [Log_note extracting_alerts,
              Query (last_year e i) (fst st) (extractor_chunk_size cfg), Fetched []]))
   \<and> (extractor_key cfg \<noteq> extractor_sql cfg
      \<and> extractor_app_name cfg \<noteq> [] \<and> \<not> setup_raises e \<and> \<not> (merge \<and> premerge_raises e)
      \<and> fst (recover_state cfg e restart w) = Inr st
      \<and> (force \<or> \<not> (truthy (redis w (extractor_sql cfg))
                      \<and> redis w (extractor_sql cfg) \<noteq> Some (canonical_sql e)))
      \<and> \<not> query_raises e 0 \<and> pull cfg e 0 (fst st) = [] \<longrightarrow>
      (\<exists>w'. extract_alerts (Suc fuel) cfg e force restart merge w = Some (Inr (), w')
         \<and> deliveries (trace w') = deliveries (trace w)
         \<and> writes_to (extractor_key cfg) (trace w') = writes_to (extractor_key cfg) (trace w)
              @ (if restart \<or> \<not> truthy (redis w (extractor_key cfg))
                 then [value2json e (0, 0)] else [])
         \<and> redis w' (extractor_key cfg) =
             (if restart \<or> \<not> truthy (redis w (extractor_key cfg))
              then Some (value2json e (0, 0)) else redis w (extractor_key cfg))))"
proof (intro conjI impI)
  assume "\<not> query_raises e i \<and> pull cfg e i (fst st) = []"
  then show "\<exists>w'. loop (Suc fuel) cfg e i st w = Some (Inr (), w')
         \<and> redis w' = redis w
         \<and> trace w' = trace w @ [Log_note extracting_alerts,
              Query (last_year e i) (fst st) (extractor_chunk_size cfg), Fetched []]"
    by (simp add: iteration_eq)
next
  assume a: "extractor_key cfg \<noteq> extractor_sql cfg
      \<and> extractor_app_name cfg \<noteq> [] \<and> \<not> setup_raises e \<and> \<not> (merge \<and> premerge_raises e)
      \<and> fst (recover_state cfg e restart w) = Inr st
      \<and> (force \<or> \<not> (truthy (redis w (extractor_sql cfg))
                      \<and> redis w (extractor_sql cfg) \<noteq> Some (canonical_sql e)))
      \<and> \<not> query_raises e 0 \<and> pull cfg e 0 (fst st) = []"
  then have pm: "\<not> (merge \<and> premerge_raises e)"
    and rs: "fst (recover_state cfg e restart w) = Inr st"
    and ne: "extractor_sql cfg \<noteq> extractor_key cfg"
    by auto
  from a ne show "\<exists>w'. extract_alerts (Suc fuel) cfg e force restart merge w = Some (Inr (), w')
         \<and> deliveries (trace w') = deliveries (trace w)
         \<and> writes_to (extractor_key cfg) (trace w') = writes_to (extractor_key cfg) (trace w)
              @ (if restart \<or> \<not> truthy (redis w (extractor_key cfg))
                 then [value2json e (0, 0)] else [])
         \<and> redis w' (extractor_key cfg) =
             (if restart \<or> \<not> truthy (redis w (extractor_key cfg))
              then Some (value2json e (0, 0)) else redis w (extractor_key cfg))"
    by (simp add: extract_alerts_def try_extraction_unfold[OF pm rs] recover_state_snd
        check_schema_eq finish_trace finish_redis iteration_eq
        deliveries_append writes_to_append)
qed

theorem empty_batch_ends_run_witness:
  "deliveries (trace_of (extract_alerts (Suc 0) cfg2 (calm db_one) False False False resumed)) = []
   \<and> writes_to ''alerts.state''
        (trace_of (extract_alerts (Suc 0) cfg2 (calm db_one) False False False resumed)) = []
   \<and> redis_of (extract_alerts (Suc 0) cfg2 (calm db_one) False False False resumed) ''alerts.state''
       = Some ''[300, 1]''"
proof -
  have h: "extractor_key cfg2 \<noteq> extractor_sql cfg2
      \<and> extractor_app_name cfg2 \<noteq> [] \<and> \<not> setup_raises (calm db_one)
      \<and> \<not> (False \<and> premerge_raises (calm db_one))
      \<and> fst (recover_state cfg2 (calm db_one) False resumed) = Inr (300, 1)
      \<and> (False \<or> \<not> (truthy (redis resumed (extractor_sql cfg2))
                      \<and> redis resumed (extractor_sql cfg2) \<noteq> Some (canonical_sql (calm db_one))))
      \<and> \<not> query_raises (calm db_one) 0 \<and> pull cfg2 (calm db_one) 0 (fst (300, 1)) = []"
    by code_simp
  from empty_batch_ends_run[of "calm db_one" 0 cfg2 "(300, 1)" 0 resumed False False False] h
  obtain w' where
    "extract_alerts (Suc 0) cfg2 (calm db_one) False False False resumed = Some (Inr (), w')"
    "deliveries (trace w') = deliveries (trace resumed)"
    "writes_to (extractor_key cfg2) (trace w') = writes_to (extractor_key cfg2) (trace resumed)
        @ (if False \<or> \<not> truthy (redis resumed (extractor_key cfg2))
           then [value2json (calm db_one) (0, 0)] else [])"
    "redis w' (extractor_key cfg2) =
        (if False \<or> \<not> truthy (redis resumed (extractor_key cfg2))
         then Some (value2json (calm db_one) (0, 0)) else redis resumed (extractor_key cfg2))"
    by blast
  then show ?thesis
    by (simp add: trace_of_def redis_of_def cfg2_def resumed_def truthy_def)
qed

text \<open>
  C8. The id query of round \<open>i\<close> returns the first \<^verbatim>\<open>chunk_size\<close> identifiers, in ascending
  order and each once, of the summaries that were created after today minus
  (\<open>YEAR\<close> minus \<open>DAY\<close>) and of which the summary row or a joined alert row was updated
  after the checkpoint's timestamp; the batch of the round holds one document for each
  of these identifiers, in that order. Every round issues this query once, with that
  cutoff, the timestamp of the state it starts from and the limit \<^verbatim>\<open>chunk_size\<close>, and
  what it fetches is the batch of that query; the round that follows starts from the
  \<open>(created, id)\<close> of the last document fetched. So the loop, however long it runs, starts
  with the query for the state it was entered with.
\<close>

theorem id_query_selects:
  "get_ids (tables e i) (last_year e i) lm (extractor_chunk_size cfg) =
     take (extractor_chunk_size cfg) (sorted_list_of_set
       {s_id s | s. s \<in> set (performance_alert_summary (tables e i))
          \<and> today e i - (YEAR e - DAY e) < s_created s
          \<and> (lm < s_last_updated s
              \<or> (\<exists>a \<in> set (performance_alert (tables e i)).
                    a_summary_id a = s_id s \<and> lm < a_last_updated a))})
   \<and> map doc_id (pull cfg e i lm)
       = get_ids (tables e i) (last_year e i) lm (extractor_chunk_size cfg)
   \<and> (\<exists>post. trace (snd (iteration cfg e i st w)) =
          trace w @ Log_note extracting_alerts
            # Query (today e i - (YEAR e - DAY e)) (fst st) (extractor_chunk_size cfg) # post
        \<and> (if query_raises e i then post = []
            else \<exists>rest. post = Fetched (pull cfg e i (fst st)) # rest
                   \<and> queries rest = [] \<and> fetch_sizes rest = []))
   \<and> (\<forall>st'. fst (iteration cfg e i st w) = Continue st' \<longrightarrow>
          st' = (doc_created (last (pull cfg e i (fst st))),
                 doc_id (last (pull cfg e i (fst st))))
          \<and> loop (Suc fuel) cfg e i st w
              = loop fuel cfg e (Suc i) st' (snd (iteration cfg e i st w))
          \<and> loop_world (Suc fuel) cfg e i st w
              = loop_world fuel cfg e (Suc i) st' (snd (iteration cfg e i st w)))
   \<and> (\<exists>post. trace (loop_world (Suc fuel) cfg e i st w) =
          trace w @ Log_note extracting_alerts
            # Query (today e i - (YEAR e - DAY e)) (fst st) (extractor_chunk_size cfg) # post)
   \<and> (loop fuel cfg e i st w = Some (r, w') \<longrightarrow>
        (\<exists>post. trace w' = trace w @ Log_note extracting_alerts
            # Query (today e i - (YEAR e - DAY e)) (fst st) (extractor_chunk_size cfg) # post))"
proof -
  have ly: "last_year e i = today e i - (YEAR e - DAY e)"
    by (simp add: last_year_def)
  have a: "get_ids (tables e i) (last_year e i) lm (extractor_chunk_size cfg) =
     take (extractor_chunk_size cfg) (sorted_list_of_set
       {s_id s | s. s \<in> set (performance_alert_summary (tables e i))
          \<and> today e i - (YEAR e - DAY e) < s_created s
          \<and> (lm < s_last_updated s
              \<or> (\<exists>a \<in> set (performance_alert (tables e i)).
                    a_summary_id a = s_id s \<and> lm < a_last_updated a))})"
    unfolding ly by (rule get_ids_sorted_list)
  have b: "map doc_id (pull cfg e i lm)
       = get_ids (tables e i) (last_year e i) lm (extractor_chunk_size cfg)"
    unfolding pull_def by (rule construct_docs_ids[OF get_ids_subset])
  have c: "\<exists>post. trace (snd (iteration cfg e i st w)) =
          trace w @ Log_note extracting_alerts
            # Query (today e i - (YEAR e - DAY e)) (fst st) (extractor_chunk_size cfg) # post
        \<and> (if query_raises e i then post = []
            else \<exists>rest. post = Fetched (pull cfg e i (fst st)) # rest
                   \<and> queries rest = [] \<and> fetch_sizes rest = [])"
    unfolding ly[symmetric] by (simp add: iteration_eq)
  have d: "\<forall>st'. fst (iteration cfg e i st w) = Continue st' \<longrightarrow>
          st' = (doc_created (last (pull cfg e i (fst st))),
                 doc_id (last (pull cfg e i (fst st))))
          \<and> loop (Suc fuel) cfg e i st w
              = loop fuel cfg e (Suc i) st' (snd (iteration cfg e i st w))
          \<and> loop_world (Suc fuel) cfg e i st w
              = loop_world fuel cfg e (Suc i) st' (snd (iteration cfg e i st w))"
  proof (intro allI impI)
    fix st'
    assume f: "fst (iteration cfg e i st w) = Continue st'"
    then have it: "iteration cfg e i st w = (Continue st', snd (iteration cfg e i st w))"
      by (cases "iteration cfg e i st w") simp
    have "st' = (doc_created (last (pull cfg e i (fst st))),
                 doc_id (last (pull cfg e i (fst st))))"
      using f by (simp add: iteration_eq split: if_splits)
    moreover have "loop (Suc fuel) cfg e i st w
              = loop fuel cfg e (Suc i) st' (snd (iteration cfg e i st w))"
      by (subst loop.simps(2), subst it) simp
    moreover have "loop_world (Suc fuel) cfg e i st w
              = loop_world fuel cfg e (Suc i) st' (snd (iteration cfg e i st w))"
      by (subst loop_world.simps(2), subst it) simp
    ultimately show "st' = (doc_created (last (pull cfg e i (fst st))),
                 doc_id (last (pull cfg e i (fst st))))
          \<and> loop (Suc fuel) cfg e i st w
              = loop fuel cfg e (Suc i) st' (snd (iteration cfg e i st w))
          \<and> loop_world (Suc fuel) cfg e i st w
              = loop_world fuel cfg e (Suc i) st' (snd (iteration cfg e i st w))"
      by (intro conjI)
  qed
  have g: "\<exists>post. trace (loop_world (Suc fuel) cfg e i st w) =
          trace w @ Log_note extracting_alerts
            # Query (today e i - (YEAR e - DAY e)) (fst st) (extractor_chunk_size cfg) # post"
    using loop_world_head[of fuel cfg e i st w] unfolding ly by blast
  have h: "loop fuel cfg e i st w = Some (r, w') \<longrightarrow>
        (\<exists>post. trace w' = trace w @ Log_note extracting_alerts
            # Query (today e i - (YEAR e - DAY e)) (fst st) (extractor_chunk_size cfg) # post)"
    using loop_head[of fuel cfg e i st w r w'] unfolding ly by blast
  from a b c d g h show ?thesis
    by (intro conjI)
qed

theorem id_query_selects_witness:
  "take (extractor_chunk_size cfg2) (sorted_list_of_set
       {s_id s | s. s \<in> set (performance_alert_summary (tables (calm db_four) 1))
          \<and> today (calm db_four) 1 - (YEAR (calm db_four) - DAY (calm db_four)) < s_created s
          \<and> (120 < s_last_updated s
              \<or> (\<exists>a \<in> set (performance_alert (tables (calm db_four) 1)).
                    a_summary_id a = s_id s \<and> 120 < a_last_updated a))}) = [1, 3]
   \<and> map doc_id (pull cfg2 (calm db_four) 1 120) = [1, 3]
   \<and> loop 5 cfg2 (calm db_four) 0 (0, 0) fresh
       = loop 4 cfg2 (calm db_four) 1 (120, 2) (snd (iteration cfg2 (calm db_four) 0 (0, 0) fresh))
   \<and> drop 5 (trace (snd (iteration cfg2 (calm db_four) 1 (120, 2)
                (snd (iteration cfg2 (calm db_four) 0 (0, 0) fresh)))))
       = [Log_note extracting_alerts, Query 36 120 2,
          Fetched [\<lparr>doc_id = 1, doc_created = 110, etl_timestamp = None\<rparr>,
                   \<lparr>doc_id = 3, doc_created = 130, etl_timestamp = None\<rparr>],
          Extend [\<lparr>doc_id = 1, doc_created = 110, etl_timestamp = Some 400\<rparr>,
                  \<lparr>doc_id = 3, doc_created = 130, etl_timestamp = Some 400\<rparr>],
          Redis_set ''alerts.state'' ''[130, 3]'']
   \<and> queries (trace (loop_world 9 cfg2 (calm db_four) 0 (0, 0) fresh))
       = [Query 36 0 2, Query 36 120 2, Query 36 130 2, Query 36 140 2]"
proof -
  let ?e = "calm db_four"
  have g: "get_ids (tables ?e 1) (last_year ?e 1) 120 (extractor_chunk_size cfg2) = [1, 3]"
    by code_simp
  note t = id_query_selects[of ?e 1 120 cfg2, unfolded g]
  from t[THEN conjunct1] have a: "take (extractor_chunk_size cfg2) (sorted_list_of_set
       {s_id s | s. s \<in> set (performance_alert_summary (tables ?e 1))
          \<and> today ?e 1 - (YEAR ?e - DAY ?e) < s_created s
          \<and> (120 < s_last_updated s
              \<or> (\<exists>a \<in> set (performance_alert (tables ?e 1)).
                    a_summary_id a = s_id s \<and> 120 < a_last_updated a))}) = [1, 3]"
    by (rule sym)
  from t[THEN conjunct2, THEN conjunct1]
  have b: "map doc_id (pull cfg2 ?e 1 120) = [1, 3]" .
  have f: "fst (iteration cfg2 ?e 0 (0, 0) fresh) = Continue (120, 2)"
    by code_simp
  from id_query_selects[of ?e 0 0 cfg2 "(0, 0)" fresh 4,
      THEN conjunct2, THEN conjunct2, THEN conjunct2, THEN conjunct1, THEN spec, THEN mp, OF f]
  have c: "loop 5 cfg2 ?e 0 (0, 0) fresh
       = loop 4 cfg2 ?e 1 (120, 2) (snd (iteration cfg2 ?e 0 (0, 0) fresh))"
    by simp
  have d: "drop 5 (trace (snd (iteration cfg2 ?e 1 (120, 2)
                (snd (iteration cfg2 ?e 0 (0, 0) fresh)))))
       = [Log_note extracting_alerts, Query 36 120 2,
          Fetched [\<lparr>doc_id = 1, doc_created = 110, etl_timestamp = None\<rparr>,
                   \<lparr>doc_id = 3, doc_created = 130, etl_timestamp = None\<rparr>],
          Extend [\<lparr>doc_id = 1, doc_created = 110, etl_timestamp = Some 400\<rparr>,
                  \<lparr>doc_id = 3, doc_created = 130, etl_timestamp = Some 400\<rparr>],
          Redis_set ''alerts.state'' ''[130, 3]'']"
    by code_simp
  have q: "queries (trace (loop_world 9 cfg2 ?e 0 (0, 0) fresh))
       = [Query 36 0 2, Query 36 120 2, Query 36 130 2, Query 36 140 2]"
    by code_simp
  from a b c d q show ?thesis
    by (intro conjI)
qed

text \<open>
  C3, on the code. The claim is that two checkpoints committed by successive chunks of one
  invocation never go down in \<open>(created, id)\<close>. The loop commits the \<open>created\<close> and \<open>id\<close>
  of the last document of a batch ordered by \<open>id\<close>, and the next query selects by
  \<open>last_updated\<close> alone: with a page of two and the two summaries of \<open>db_two\<close>, of which
  the older was updated later, the first chunk commits \<open>(200, 2)\<close> and the second chunk,
  which fetches summary 1 again, commits \<open>(100, 1)\<close>.
\<close>

theorem checkpoint_regresses:
  "writes_to ''alerts.state''
     (trace_of (extract_alerts 5 cfg2 (calm db_two) False False False fresh))
     = [''[0, 0]'', ''[200, 2]'', ''[100, 1]'']
   \<and> map pair_of_json (writes_to ''alerts.state''
       (trace_of (extract_alerts 5 cfg2 (calm db_two) False False False fresh)))
     = [Some (0, 0), Some (200, 2), Some (100, 1)]"
  by code_simp

text \<open>
  C4, on the code. The claim is that a second invocation, with no source row created or
  updated in between, fetches and delivers nothing. The first run over the one summary of
  \<open>db_one\<close> (created on day 100, updated on day 300) leaves the checkpoint \<open>(100, 1)\<close>; the
  second run, started on the store the first one left, selects the rows updated after day
  100, fetches the same summary and delivers it again.
\<close>

theorem idle_rerun_redelivers:
  "redis_of (extract_alerts 5 cfg2 (calm db_one) False False False fresh) ''alerts.state''
     = Some ''[100, 1]''
   \<and> deliveries (trace_of (extract_alerts 5 cfg2 (calm db_one) False False False
        ((world_of (extract_alerts 5 cfg2 (calm db_one) False False False fresh))
           \<lparr>trace := []\<rparr>)))
     = [[\<lparr>doc_id = 1, doc_created = 100, etl_timestamp = Some 400\<rparr>]]
   \<and> fetch_sizes (trace_of (extract_alerts 5 cfg2 (calm db_one) False False False
        ((world_of (extract_alerts 5 cfg2 (calm db_one) False False False fresh))
           \<lparr>trace := []\<rparr>)))
     = [1]"
  by code_simp

text \<open>
  C6, as the code has it. The claim counts the rounds from the number of eligible rows
  of the source. With a page of two, \<open>db_four\<close> holds four eligible rows and the loop makes
  four rounds that fetch 2, 2, 2 and 1 rows and four deliveries: after each chunk the next
  query selects by \<open>last_updated\<close> against the \<open>created\<close> of the last document, and fetches
  summary 1 again (the defect of C3 and C4). With a page of one and an empty source, that
  is \<^verbatim>\<open>chunk_size - 1\<close> rows, the one round makes no delivery.
\<close>

theorem page_counts_differ:
  "get_ids db_four (last_year (calm db_four) 0) 0 10 = [1, 2, 3, 4]
   \<and> extractor_chunk_size cfg2 = 2
   \<and> fetch_sizes (trace_of (loop 9 cfg2 (calm db_four) 0 (0, 0) fresh)) = [2, 2, 2, 1]
   \<and> length (deliveries (trace_of (loop 9 cfg2 (calm db_four) 0 (0, 0) fresh))) = 4
   \<and> get_ids db_none (last_year (calm db_none) 0) 0 10 = []
   \<and> fetch_sizes (trace_of (loop 9 (cfg2\<lparr>extractor_chunk_size := 1\<rparr>) (calm db_none) 0 (0, 0) fresh))
       = [0]
   \<and> deliveries (trace_of (loop 9 (cfg2\<lparr>extractor_chunk_size := 1\<rparr>) (calm db_none) 0 (0, 0) fresh))
       = []"
  by code_simp

text \<open>
  C6, amended: the rounds counted from what the queries return. When the queries of three
  successive rounds return \<^verbatim>\<open>chunk_size\<close>, \<^verbatim>\<open>chunk_size\<close> and no rows, with a positive
  \<^verbatim>\<open>chunk_size\<close>, and no call raises, the loop returns, for every fuel of three rounds or
  more, after exactly three queries and two deliveries, on the empty round. When the
  first query returns \<^verbatim>\<open>chunk_size - 1\<close> rows, at least one, the loop returns after exactly
  one query and one delivery.
\<close>

theorem loop_round_counts:
  "(let n = extractor_chunk_size cfg;
        acc0 = pull cfg e i (fst st);
        acc1 = pull cfg e (Suc i) (doc_created (last acc0));
        acc2 = pull cfg e (Suc (Suc i)) (doc_created (last acc1))
    in (0 < n \<and> length acc0 = n \<and> length acc1 = n \<and> acc2 = []
        \<and> \<not> query_raises e i \<and> \<not> query_raises e (Suc i) \<and> \<not> query_raises e (Suc (Suc i))
        \<and> \<not> extend_raises e i \<and> \<not> extend_raises e (Suc i)
        \<longrightarrow> (\<exists>w' evs. loop (Suc (Suc (Suc fuel))) cfg e i st w = Some (Inr (), w')
              \<and> trace w' = trace w @ evs
              \<and> fetch_sizes evs = [n, n, 0]
              \<and> length (deliveries evs) = 2 \<and> length (queries evs) = 3))
     \<and> (1 < n \<and> length acc0 = n - 1 \<and> \<not> query_raises e i \<and> \<not> extend_raises e i
        \<longrightarrow> (\<exists>w' evs. loop (Suc fuel) cfg e i st w = Some (Inr (), w')
              \<and> trace w' = trace w @ evs
              \<and> fetch_sizes evs = [n - 1]
              \<and> length (deliveries evs) = 1 \<and> length (queries evs) = 1)))"
proof -
  let ?n = "extractor_chunk_size cfg"
  let ?acc0 = "pull cfg e i (fst st)"
  let ?acc1 = "pull cfg e (Suc i) (doc_created (last ?acc0))"
  let ?acc2 = "pull cfg e (Suc (Suc i)) (doc_created (last ?acc1))"
  have three: "\<exists>w' evs. loop (Suc (Suc (Suc fuel))) cfg e i st w = Some (Inr (), w')
              \<and> trace w' = trace w @ evs
              \<and> fetch_sizes evs = [?n, ?n, 0]
              \<and> length (deliveries evs) = 2 \<and> length (queries evs) = 3"
    if h: "0 < ?n" "length ?acc0 = ?n" "length ?acc1 = ?n" "?acc2 = []"
      "\<not> query_raises e i" "\<not> query_raises e (Suc i)" "\<not> query_raises e (Suc (Suc i))"
      "\<not> extend_raises e i" "\<not> extend_raises e (Suc i)"
  proof -
    let ?s1 = "(doc_created (last ?acc0), doc_id (last ?acc0))"
    let ?s2 = "(doc_created (last ?acc1), doc_id (last ?acc1))"
    let ?r0 = "[Log_note extracting_alerts, Query (last_year e i) (fst st) ?n,
           Fetched ?acc0, Extend (stamp (now e i) 0 ?acc0),
           Redis_set (extractor_key cfg) (value2json e ?s1)]"
    let ?r1 = "[Log_note extracting_alerts, Query (last_year e (Suc i)) (fst ?s1) ?n,
           Fetched ?acc1, Extend (stamp (now e (Suc i)) 0 ?acc1),
           Redis_set (extractor_key cfg) (value2json e ?s2)]"
    let ?r2 = "[Log_note extracting_alerts, Query (last_year e (Suc (Suc i))) (fst ?s2) ?n,
           Fetched []]"
    let ?w1 = "w\<lparr>redis := (redis w)(extractor_key cfg \<mapsto> value2json e ?s1),
                 trace := trace w @ ?r0\<rparr>"
    let ?w2 = "?w1\<lparr>redis := (redis ?w1)(extractor_key cfg \<mapsto> value2json e ?s2),
                   trace := trace ?w1 @ ?r1\<rparr>"
    let ?w3 = "?w2\<lparr>trace := trace ?w2 @ ?r2\<rparr>"
    from h have ne: "?acc0 \<noteq> []" "?acc1 \<noteq> []"
      by auto
    have a1: "pull cfg e (Suc i) (fst ?s1) = ?acc1" and a2: "pull cfg e (Suc (Suc i)) (fst ?s2) = []"
      using h(4) by simp_all
    have "loop (Suc (Suc (Suc fuel))) cfg e i st w = loop (Suc (Suc fuel)) cfg e (Suc i) ?s1 ?w1"
      using h ne by (intro loop_full_round) simp_all
    also have "\<dots> = loop (Suc fuel) cfg e (Suc (Suc i)) ?s2 ?w2"
      unfolding a1[symmetric]
      using h ne a1 by (intro loop_full_round) simp_all
    also have "\<dots> = Some (Inr (), ?w3)"
      using h(7) a2 by (rule loop_empty_round)
    finally have run: "loop (Suc (Suc (Suc fuel))) cfg e i st w = Some (Inr (), ?w3)" .
    have "trace ?w3 = trace w @ (?r0 @ ?r1 @ ?r2)"
      by simp
    moreover have "fetch_sizes (?r0 @ ?r1 @ ?r2) = [?n, ?n, 0]"
      "length (deliveries (?r0 @ ?r1 @ ?r2)) = 2" "length (queries (?r0 @ ?r1 @ ?r2)) = 3"
      using h(2,3) by simp_all
    ultimately show ?thesis
      using run by blast
  qed
  have one: "\<exists>w' evs. loop (Suc fuel) cfg e i st w = Some (Inr (), w')
              \<and> trace w' = trace w @ evs
              \<and> fetch_sizes evs = [?n - 1]
              \<and> length (deliveries evs) = 1 \<and> length (queries evs) = 1"
    if h: "1 < ?n" "length ?acc0 = ?n - 1" "\<not> query_raises e i" "\<not> extend_raises e i"
  proof -
    from h have ne: "?acc0 \<noteq> []" and lt: "length ?acc0 < ?n"
      by auto
    let ?s1 = "(doc_created (last ?acc0), doc_id (last ?acc0))"
    let ?r0 = "[Log_note extracting_alerts, Query (last_year e i) (fst st) ?n,
           Fetched ?acc0, Extend (stamp (now e i) 0 ?acc0),
           Redis_set (extractor_key cfg) (value2json e ?s1)]"
    let ?w1 = "w\<lparr>redis := (redis w)(extractor_key cfg \<mapsto> value2json e ?s1),
                 trace := trace w @ ?r0\<rparr>"
    have run: "loop (Suc fuel) cfg e i st w = Some (Inr (), ?w1)"
      using h(3,4) ne lt by (rule loop_short_round)
    have "trace ?w1 = trace w @ ?r0" "fetch_sizes ?r0 = [?n - 1]"
      "length (deliveries ?r0) = 1" "length (queries ?r0) = 1"
      using h(2) by simp_all
    with run show ?thesis
      by blast
  qed
  show ?thesis
    unfolding Let_def using three one by blast
qed

theorem loop_round_counts_witness:
  "fetch_sizes (trace_of (loop (Suc (Suc (Suc 0))) cfg2 (calm db_clean) 0 (0, 0) fresh)) = [2, 2, 0]
   \<and> length (deliveries (trace_of (loop (Suc (Suc (Suc 0))) cfg2 (calm db_clean) 0 (0, 0) fresh))) = 2
   \<and> fetch_sizes (trace_of (loop (Suc 0) cfg2 (calm db_one) 0 (0, 0) fresh)) = [1]
   \<and> length (deliveries (trace_of (loop (Suc 0) cfg2 (calm db_one) 0 (0, 0) fresh))) = 1"
proof -
  note three = loop_round_counts[where cfg = cfg2 and e = "calm db_clean" and i = 0
      and st = "(0, 0)" and fuel = 0 and w = fresh, unfolded Let_def, THEN conjunct1]
  note one = loop_round_counts[where cfg = cfg2 and e = "calm db_one" and i = 0
      and st = "(0, 0)" and fuel = 0 and w = fresh, unfolded Let_def, THEN conjunct2]
  have "\<exists>w' evs. loop (Suc (Suc (Suc 0))) cfg2 (calm db_clean) 0 (0, 0) fresh = Some (Inr (), w')
      \<and> trace w' = trace fresh @ evs
      \<and> fetch_sizes evs = [extractor_chunk_size cfg2, extractor_chunk_size cfg2, 0]
      \<and> length (deliveries evs) = 2 \<and> length (queries evs) = 3"
    by (rule three[THEN mp]) code_simp
  then have a: "fetch_sizes (trace_of (loop (Suc (Suc (Suc 0))) cfg2 (calm db_clean) 0 (0, 0) fresh))
        = [2, 2, 0]"
      "length (deliveries (trace_of (loop (Suc (Suc (Suc 0))) cfg2 (calm db_clean) 0 (0, 0) fresh)))
        = 2"
    by (auto simp: trace_of_def fresh_def cfg2_def)
  have "\<exists>w' evs. loop (Suc 0) cfg2 (calm db_one) 0 (0, 0) fresh = Some (Inr (), w')
      \<and> trace w' = trace fresh @ evs
      \<and> fetch_sizes evs = [extractor_chunk_size cfg2 - 1]
      \<and> length (deliveries evs) = 1 \<and> length (queries evs) = 1"
    by (rule one[THEN mp]) code_simp
  then have b: "fetch_sizes (trace_of (loop (Suc 0) cfg2 (calm db_one) 0 (0, 0) fresh)) = [1]"
      "length (deliveries (trace_of (loop (Suc 0) cfg2 (calm db_one) 0 (0, 0) fresh))) = 1"
    by (auto simp: trace_of_def fresh_def cfg2_def)
  from a b show ?thesis by simp
qed

end
